theory Spec2Isabelle
  imports Main "HOL-Library.Sublist"
begin

section \<open>Strings\<close>

text \<open>
  A Python \<open>str\<close> is a sequence of Unicode code points. The model has the
  code points 0 to 255 (Basic Latin and Latin-1 Supplement) and the three
  Greek sigmas: the capital U+03A3, whose lowercasing depends on its context,
  the small U+03C3 and the final small U+03C2. Other code points are outside
  the model.
\<close>

datatype codepoint = Latin char | CapitalSigma | SmallSigma | FinalSigma

type_synonym pystr = "codepoint list"

definition py_str :: "string \<Rightarrow> pystr" where
  "py_str s = map Latin s"

text \<open>
  The lowercase mapping of the Unicode character database. On the code
  points 0 to 255 the capital letters A to Z (65..90) and the capital letters
  of Latin-1 (192..222 without the multiplication sign 215) move up by 32 and
  everything else is unchanged; U+03A3 maps to U+03C3.
\<close>

definition lower_char :: "char \<Rightarrow> char" where
  "lower_char c =
     (let n = (of_char c :: nat)
      in if (65 \<le> n \<and> n \<le> 90) \<or> (192 \<le> n \<and> n \<le> 222 \<and> n \<noteq> 215)
         then char_of (n + 32) else c)"

definition lower_codepoint :: "codepoint \<Rightarrow> codepoint" where
  "lower_codepoint c =
     (case c of
        Latin a \<Rightarrow> Latin (lower_char a)
      | CapitalSigma \<Rightarrow> SmallSigma
      | SmallSigma \<Rightarrow> SmallSigma
      | FinalSigma \<Rightarrow> FinalSigma)"

text \<open>
  The Unicode properties \<open>Cased\<close> and \<open>Case_Ignorable\<close>. Cased on 0..255: the
  letters A to Z and a to z, the ordinal indicators 170 and 186, the micro
  sign 181 and the letters 192..255 without the signs 215 and 247.
  Case-ignorable on 0..255: apostrophe, full stop, colon, circumflex, grave,
  diaeresis, soft hyphen, macron, acute, middle dot and cedilla. The sigmas
  are cased and not case-ignorable.
\<close>

definition cased :: "codepoint \<Rightarrow> bool" where
  "cased c =
     (case c of
        Latin a \<Rightarrow>
          (let n = (of_char a :: nat)
           in (65 \<le> n \<and> n \<le> 90) \<or> (97 \<le> n \<and> n \<le> 122) \<or> n = 170 \<or> n = 181 \<or> n = 186
              \<or> (192 \<le> n \<and> n \<le> 214) \<or> (216 \<le> n \<and> n \<le> 246) \<or> (248 \<le> n \<and> n \<le> 255))
      | CapitalSigma \<Rightarrow> True
      | SmallSigma \<Rightarrow> True
      | FinalSigma \<Rightarrow> True)"

definition case_ignorable :: "codepoint \<Rightarrow> bool" where
  "case_ignorable c =
     (case c of
        Latin a \<Rightarrow>
          (let n = (of_char a :: nat)
           in n = 39 \<or> n = 46 \<or> n = 58 \<or> n = 94 \<or> n = 96 \<or> n = 168 \<or> n = 173 \<or> n = 175
              \<or> n = 180 \<or> n = 183 \<or> n = 184)
      | CapitalSigma \<Rightarrow> False
      | SmallSigma \<Rightarrow> False
      | FinalSigma \<Rightarrow> False)"

text \<open>
  \<open>str.lower\<close>. Every code point is replaced by its lowercase mapping, except
  that a capital sigma becomes the final small sigma when the nearest code
  point before it that is not case-ignorable exists and is cased, and the
  nearest code point after it that is not case-ignorable does not exist or is
  not cased. \<open>before\<close> holds the code points of the original string that
  precede the current one, the nearest first.
\<close>

definition handle_capital_sigma :: "pystr \<Rightarrow> pystr \<Rightarrow> codepoint" where
  "handle_capital_sigma before after =
     (if (case dropWhile case_ignorable before of [] \<Rightarrow> False | c # _ \<Rightarrow> cased c)
         \<and> (case dropWhile case_ignorable after of [] \<Rightarrow> True | c # _ \<Rightarrow> \<not> cased c)
      then FinalSigma else SmallSigma)"

fun lower_from :: "pystr \<Rightarrow> pystr \<Rightarrow> pystr" where
  "lower_from before [] = []"
| "lower_from before (c # after) =
     (if c = CapitalSigma then handle_capital_sigma before after else lower_codepoint c)
       # lower_from (c # before) after"

definition lower :: "pystr \<Rightarrow> pystr" where
  "lower s = lower_from [] s"

text \<open>
  \<open>string.punctuation\<close> of the Python standard library: the 32 characters
  \<^verbatim>\<open>!"#$%&'()*+,-./:;<=>?@[\]^_`{|}~\<close>, in this order.
\<close>

definition string_punctuation :: pystr where
  "string_punctuation =
     map Latin
       [CHR 0x21, CHR 0x22, CHR 0x23, CHR 0x24, CHR 0x25, CHR 0x26, CHR 0x27, CHR 0x28,
        CHR 0x29, CHR 0x2A, CHR 0x2B, CHR 0x2C, CHR 0x2D, CHR 0x2E, CHR 0x2F,
        CHR 0x3A, CHR 0x3B, CHR 0x3C, CHR 0x3D, CHR 0x3E, CHR 0x3F, CHR 0x40,
        CHR 0x5B, CHR 0x5C, CHR 0x5D, CHR 0x5E, CHR 0x5F, CHR 0x60,
        CHR 0x7B, CHR 0x7C, CHR 0x7D, CHR 0x7E]"

text \<open>
  \<open>s.translate(str.maketrans("", "", deletechars))\<close>: the table maps each
  character of \<open>deletechars\<close> to \<open>None\<close>, and \<open>translate\<close> drops exactly the
  characters mapped to \<open>None\<close>.
\<close>

definition translate_delete :: "pystr \<Rightarrow> pystr \<Rightarrow> pystr" where
  "translate_delete deletechars s = filter (\<lambda>c. c \<notin> set deletechars) s"

section \<open>Errors\<close>

text \<open>
  The exceptions the modelled code can raise: \<open>RequestFailed\<close> is the
  \<open>Exception\<close> of \<open>NewsBlurClient.Request\<close>, \<open>DateOutOfRange\<close> the
  \<open>OverflowError\<close> or \<open>ValueError\<close> of \<open>datetime\<close> arithmetic,
  \<open>TypeError\<close> the comparison of a \<open>datetime\<close> with \<open>None\<close>,
  \<open>AttributeError\<close> the call of \<open>lower\<close> on a value that is not a string, and
  \<open>LangDetectException\<close> the failure of \<open>langdetect.detect\<close>.
\<close>

datatype error =
  RequestFailed | DateOutOfRange | TypeError | AttributeError | LangDetectException

section \<open>Stories\<close>

text \<open>
  The values of the server's JSON that the model admits under the keys \<open>id\<close>
  and \<open>story_title\<close>: \<open>null\<close>, a boolean, an integer or a string.
\<close>

datatype json = JNull | JBool bool | JNumber int | JString pystr

text \<open>
  The values the model admits under the key \<open>story_timestamp\<close>: an integer, or
  a string of decimal digits (the empty string with no digit).
\<close>

datatype digit = D0 | D1 | D2 | D3 | D4 | D5 | D6 | D7 | D8 | D9

datatype timestamp_value = Number int | Digits "digit list"

text \<open>
  \<open>Story\<close> wraps the dictionary \<open>story_data\<close> of the server's reply. The key
  \<open>id\<close> is read by the constructor with \<open>story_data["id"]\<close> and is always
  there; every other key is read with \<open>.get\<close>. For \<open>story_title\<close> the field
  is \<open>None\<close> when the key is absent, and \<open>Some JNull\<close> when its value is
  \<open>null\<close>: the default of \<open>.get\<close> replaces only an absent key. For the other
  keys the default is \<open>None\<close> (or a falsy 0 for \<open>read_status\<close>), so that an
  absent key and the value \<open>null\<close> are the same \<open>None\<close>.
\<close>

record story =
  story_id :: json
  story_hash :: "string option"
  story_permalink :: "string option"
  story_title :: "json option"
  read_status :: "int option"
  story_timestamp :: "timestamp_value option"

definition hash :: "story \<Rightarrow> string option" where
  "hash s = story_hash s"

definition permalink :: "story \<Rightarrow> string option" where
  "permalink s = story_permalink s"

definition title :: "story \<Rightarrow> json" where
  "title s = (case story_title s of None \<Rightarrow> story_id s | Some t \<Rightarrow> t)"

definition unread :: "story \<Rightarrow> bool" where
  "unread s = (case read_status s of None \<Rightarrow> True | Some r \<Rightarrow> r = 0)"

text \<open>
  \<open>Story.NormalizeTitle\<close>. Only a string has the method \<open>lower\<close>: on every
  other title the call raises \<open>AttributeError\<close>.
\<close>

definition NormalizeTitle :: "story \<Rightarrow> error + pystr" where
  "NormalizeTitle s =
     (case title s of
        JString t \<Rightarrow> Inr (translate_delete string_punctuation (lower t))
      | _ \<Rightarrow> Inl AttributeError)"

section \<open>Dates and the clock\<close>

text \<open>
  An aware \<open>datetime\<close> in UTC is the number of microseconds since the epoch;
  the type covers the years 1 to 9999.
\<close>

definition datetime_min :: int where
  "datetime_min = - 62135596800000000"

definition datetime_max :: int where
  "datetime_max = 253402300799999999"

definition fromtimestamp :: "int \<Rightarrow> error + int" where
  "fromtimestamp t =
     (let d = t * 1000000
      in if datetime_min \<le> d \<and> d \<le> datetime_max then Inr d else Inl DateOutOfRange)"

definition timedelta :: "int \<Rightarrow> error + int" where
  "timedelta days =
     (if \<bar>days\<bar> \<le> 999999999 then Inr (days * 86400000000) else Inl DateOutOfRange)"

definition datetime_sub :: "int \<Rightarrow> int \<Rightarrow> error + int" where
  "datetime_sub d delta =
     (let r = d - delta
      in if datetime_min \<le> r \<and> r \<le> datetime_max then Inr r else Inl DateOutOfRange)"

text \<open>
  The truth value of a timestamp value and its conversion by \<open>float()\<close>:
  the number 0 and the empty string are falsy; a string of digits is read as
  a decimal number.
\<close>

fun truthy :: "timestamp_value \<Rightarrow> bool" where
  "truthy (Number n) = (n \<noteq> 0)"
| "truthy (Digits ds) = (ds \<noteq> [])"

fun digit_value :: "digit \<Rightarrow> int" where
  "digit_value D0 = 0" | "digit_value D1 = 1" | "digit_value D2 = 2" | "digit_value D3 = 3"
| "digit_value D4 = 4" | "digit_value D5 = 5" | "digit_value D6 = 6" | "digit_value D7 = 7"
| "digit_value D8 = 8" | "digit_value D9 = 9"

fun float :: "timestamp_value \<Rightarrow> int" where
  "float (Number n) = n"
| "float (Digits ds) = foldl (\<lambda>a d. 10 * a + digit_value d) 0 ds"

text \<open>
  \<open>Story.timestamp\<close>. The argument \<open>now\<close> is what
  \<open>datetime.datetime.now(datetime.timezone.utc)\<close> returns when the property
  is read. A truthy value is converted with \<open>float()\<close> and
  \<open>fromtimestamp\<close>, whose result is always truthy; a falsy or absent one
  gives the clock.
\<close>

definition timestamp :: "int \<Rightarrow> story \<Rightarrow> error + int" where
  "timestamp now s =
     (case story_timestamp s of
        None \<Rightarrow> Inr now
      | Some x \<Rightarrow> if truthy x then fromtimestamp (float x) else Inr now)"

text \<open>
  \<open>Story.GetLanguage\<close>; \<open>detect\<close> stands for \<open>langdetect.detect\<close>, which is
  given the title, whatever it is, and returns a language code or raises.
\<close>

type_synonym detector = "json \<Rightarrow> error + string"

definition GetLanguage :: "detector \<Rightarrow> story \<Rightarrow> error + string" where
  "GetLanguage detect s = detect (title s)"

section \<open>Feeds and pagination\<close>

record feed =
  feed_id :: string
  feed_title :: "string option"
  nt :: "int option"

definition unread_count :: "feed \<Rightarrow> int" where
  "unread_count f = (case nt f of None \<Rightarrow> 0 | Some n \<Rightarrow> n)"

text \<open>
  \<open>Feed.GetStories\<close> with \<open>unread_only\<close> left at its default \<open>True\<close>, as
  \<open>main\<close> calls it. \<open>get page\<close> is the list of stories in the server's reply
  to the request for that page, or the exception of \<open>client.Get\<close>. The method
  also appends to \<open>self.stories\<close>, which \<open>main\<close> never reads.
\<close>

definition GetStories :: "(nat \<Rightarrow> error + story list) \<Rightarrow> nat \<Rightarrow> error + story list" where
  "GetStories get page =
     (case get page of
        Inl e \<Rightarrow> Inl e
      | Inr items \<Rightarrow> Inr (filter unread items))"

text \<open>
  The \<open>while\<close> loop of \<open>main\<close> that loads a feed page by page. \<open>None\<close> is a
  loop that never ends.
\<close>

partial_function (option) fetch_loop ::
  "(nat \<Rightarrow> error + story list) \<Rightarrow> int \<Rightarrow> nat \<Rightarrow> story list \<Rightarrow> (error + story list) option"
where
  "fetch_loop get count page feed_stories =
     (if int (length feed_stories) < count
      then (case GetStories get page of
              Inl e \<Rightarrow> Some (Inl e)
            | Inr new_stories \<Rightarrow> fetch_loop get count (page + 1) (feed_stories @ new_stories))
      else Some (Inr feed_stories))"

declare fetch_loop.simps [code]

section \<open>The triage loop\<close>

text \<open>The parsed command line (\<open>ctx\<close>): \<open>type=int\<close> options are \<open>None\<close> when not given,
  \<open>--language\<close> with \<open>action="append"\<close> is \<open>None\<close> or the list of its values.\<close>

record ctx =
  deduplicate :: bool
  max_days_old :: "int option"
  max_stories_per_feed :: "int option"
  language :: "string list option"

text \<open>The local variables of \<open>main\<close> that the loops update.\<close>

record vars =
  titles_seen :: "pystr set"
  permalinks_seen :: "string option set"
  all_stories_to_mark :: "story list"
  feed_stories_to_mark :: "story list"

text \<open>\<open>cutoff\<close>: \<open>None\<close> unless \<open>ctx.max_days_old\<close> is truthy (given and not 0).\<close>

definition compute_cutoff :: "ctx \<Rightarrow> int \<Rightarrow> error + int option" where
  "compute_cutoff c now =
     (case max_days_old c of
        None \<Rightarrow> Inr None
      | Some d \<Rightarrow>
          if d \<noteq> 0
          then (case timedelta d of
                  Inl e \<Rightarrow> Inl e
                | Inr delta \<Rightarrow>
                    (case datetime_sub now delta of
                       Inl e \<Rightarrow> Inl e
                     | Inr r \<Rightarrow> Inr (Some r)))
          else Inr None)"

definition languages :: "ctx \<Rightarrow> string set" where
  "languages c = (case language c of None \<Rightarrow> {} | Some ls \<Rightarrow> set ls)"

text \<open>\<open>feed_stories_to_mark.append(story)\<close>, followed by \<open>continue\<close>.\<close>

definition purge :: "story \<Rightarrow> vars \<Rightarrow> vars" where
  "purge s v = v\<lparr>feed_stories_to_mark := feed_stories_to_mark v @ [s]\<rparr>"

text \<open>
  The last statement of the loop body, which runs only with \<open>deduplicate\<close>:
  note that a kept story has been seen. \<open>norm_title\<close> is the variable set from
  \<open>story.NormalizeTitle()\<close> at the start of the same iteration.
\<close>

definition keep :: "pystr \<Rightarrow> story \<Rightarrow> vars \<Rightarrow> vars" where
  "keep norm_title s v =
     v\<lparr>titles_seen := insert norm_title (titles_seen v),
       permalinks_seen := insert (permalink s) (permalinks_seen v)\<rparr>"

text \<open>
  The three conditions of the body that are not plain set membership, each
  with the short-circuit \<open>and\<close> of the source: the right operand is
  evaluated, and can raise, only when the left ones are truthy.
\<close>

definition earlier_than_cutoff :: "ctx \<Rightarrow> int option \<Rightarrow> int \<Rightarrow> story \<Rightarrow> error + bool" where
  "earlier_than_cutoff c cutoff now s =
     (case max_days_old c of
        None \<Rightarrow> Inr False
      | Some d \<Rightarrow>
          if d \<noteq> 0 \<and> d > 0
          then (case timestamp now s of
                  Inl e \<Rightarrow> Inl e
                | Inr t \<Rightarrow> (case cutoff of None \<Rightarrow> Inl TypeError | Some k \<Rightarrow> Inr (t < k)))
          else Inr False)"

definition limit_exceeded :: "ctx \<Rightarrow> nat \<Rightarrow> bool" where
  "limit_exceeded c story_num =
     (case max_stories_per_feed c of
        None \<Rightarrow> False
      | Some m \<Rightarrow> m \<noteq> 0 \<and> m > 0 \<and> int story_num \<ge> m)"

definition language_mismatch :: "ctx \<Rightarrow> detector \<Rightarrow> story \<Rightarrow> error + bool" where
  "language_mismatch c detect s =
     (if languages c \<noteq> {}
      then (case GetLanguage detect s of
              Inl e \<Rightarrow> Inl e
            | Inr l \<Rightarrow> Inr (l \<notin> languages c))
      else Inr False)"

text \<open>
  The three purge tests of the body that follow the deduplication, in the
  order of the source: whether one of them purges the story.
\<close>

definition filters :: "ctx \<Rightarrow> detector \<Rightarrow> int option \<Rightarrow> int \<Rightarrow> nat \<Rightarrow> story \<Rightarrow> error + bool" where
  "filters c detect cutoff now story_num s =
     (case earlier_than_cutoff c cutoff now s of
        Inl e \<Rightarrow> Inl e
      | Inr True \<Rightarrow> Inr True
      | Inr False \<Rightarrow>
          if limit_exceeded c story_num then Inr True
          else language_mismatch c detect s)"

text \<open>
  The body of \<open>for story_num, story in enumerate(feed_stories)\<close>. \<open>now\<close> is
  the clock at this iteration, \<open>detect\<close> the language detector at this
  iteration. With \<open>deduplicate\<close> the title is normalized first, which can
  raise, and the two membership tests come before the other tests.
\<close>

definition loop_body ::
  "ctx \<Rightarrow> detector \<Rightarrow> int option \<Rightarrow> int \<Rightarrow> nat \<Rightarrow> story \<Rightarrow> vars \<Rightarrow> error + vars"
where
  "loop_body c detect cutoff now story_num s v =
     (if deduplicate c
      then (case NormalizeTitle s of
              Inl e \<Rightarrow> Inl e
            | Inr norm_title \<Rightarrow>
                if norm_title \<in> titles_seen v then Inr (purge s v)
                else if permalink s \<in> permalinks_seen v then Inr (purge s v)
                else
                  (case filters c detect cutoff now story_num s of
                     Inl e \<Rightarrow> Inl e
                   | Inr True \<Rightarrow> Inr (purge s v)
                   | Inr False \<Rightarrow> Inr (keep norm_title s v)))
      else
        (case filters c detect cutoff now story_num s of
           Inl e \<Rightarrow> Inl e
         | Inr True \<Rightarrow> Inr (purge s v)
         | Inr False \<Rightarrow> Inr v))"

text \<open>
  The \<open>for\<close> loop over \<open>enumerate(feed_stories)\<close>, from index \<open>story_num\<close>
  on. \<open>clock n\<close> and \<open>detect n\<close> are the clock and the detector at the
  iteration with index \<open>n\<close>.
\<close>

fun triage_loop ::
  "ctx \<Rightarrow> (nat \<Rightarrow> detector) \<Rightarrow> int option \<Rightarrow> (nat \<Rightarrow> int) \<Rightarrow> nat \<Rightarrow> story list \<Rightarrow> vars
     \<Rightarrow> error + vars"
where
  "triage_loop c detect cutoff clock story_num [] v = Inr v"
| "triage_loop c detect cutoff clock story_num (s # ss) v =
     (case loop_body c (detect story_num) cutoff (clock story_num) story_num s v of
        Inl e \<Rightarrow> Inl e
      | Inr v' \<Rightarrow> triage_loop c detect cutoff clock (Suc story_num) ss v')"

section \<open>The run\<close>

text \<open>
  The body of \<open>for feed in feeds\<close>: load the feed's stories, triage them,
  extend \<open>all_stories_to_mark\<close>. \<open>pages\<close> gives the server's pages of each
  feed.
\<close>

definition feed_iteration ::
  "ctx \<Rightarrow> (string \<Rightarrow> nat \<Rightarrow> error + story list) \<Rightarrow> (nat \<Rightarrow> detector) \<Rightarrow> int option
     \<Rightarrow> (nat \<Rightarrow> int) \<Rightarrow> feed \<Rightarrow> vars \<Rightarrow> (error + vars) option"
where
  "feed_iteration c pages detect cutoff clock f v =
     (case fetch_loop (pages (feed_id f)) (unread_count f) 1 [] of
        None \<Rightarrow> None
      | Some (Inl e) \<Rightarrow> Some (Inl e)
      | Some (Inr feed_stories) \<Rightarrow>
          (case triage_loop c detect cutoff clock 0 feed_stories
                  (v\<lparr>feed_stories_to_mark := []\<rparr>) of
             Inl e \<Rightarrow> Some (Inl e)
           | Inr v' \<Rightarrow>
               Some (Inr (if feed_stories_to_mark v' \<noteq> []
                          then v'\<lparr>all_stories_to_mark :=
                                    all_stories_to_mark v' @ feed_stories_to_mark v'\<rparr>
                          else v'))))"

text \<open>The \<open>for\<close> loop over the feeds; \<open>i\<close> counts the feeds done.\<close>

fun feeds_loop ::
  "ctx \<Rightarrow> (string \<Rightarrow> nat \<Rightarrow> error + story list) \<Rightarrow> (nat \<Rightarrow> nat \<Rightarrow> detector) \<Rightarrow> int option
     \<Rightarrow> (nat \<Rightarrow> nat \<Rightarrow> int) \<Rightarrow> nat \<Rightarrow> feed list \<Rightarrow> vars \<Rightarrow> (error + vars) option"
where
  "feeds_loop c pages detect cutoff clock i [] v = Some (Inr v)"
| "feeds_loop c pages detect cutoff clock i (f # fs) v =
     (case feed_iteration c pages (detect i) cutoff (clock i) f v of
        None \<Rightarrow> None
      | Some (Inl e) \<Rightarrow> Some (Inl e)
      | Some (Inr v') \<Rightarrow> feeds_loop c pages detect cutoff clock (Suc i) fs v')"

text \<open>
  The values of \<open>vars\<close> at the end of each iteration of the loop over the
  feeds, as long as the iterations return.
\<close>

fun feed_results ::
  "ctx \<Rightarrow> (string \<Rightarrow> nat \<Rightarrow> error + story list) \<Rightarrow> (nat \<Rightarrow> nat \<Rightarrow> detector) \<Rightarrow> int option
     \<Rightarrow> (nat \<Rightarrow> nat \<Rightarrow> int) \<Rightarrow> nat \<Rightarrow> feed list \<Rightarrow> vars \<Rightarrow> vars list"
where
  "feed_results c pages detect cutoff clock i [] v = []"
| "feed_results c pages detect cutoff clock i (f # fs) v =
     (case feed_iteration c pages (detect i) cutoff (clock i) f v of
        Some (Inr v') \<Rightarrow> v' # feed_results c pages detect cutoff clock (Suc i) fs v'
      | _ \<Rightarrow> [])"

text \<open>
  \<open>NewsBlurClient.MarkStoriesAsRead\<close>: the \<open>story_hash\<close> list it posts.
\<close>

definition MarkStoriesAsRead :: "story list \<Rightarrow> string option list" where
  "MarkStoriesAsRead stories = map hash stories"

definition initial_vars :: vars where
  "initial_vars =
     \<lparr>titles_seen = {}, permalinks_seen = {}, all_stories_to_mark = [],
      feed_stories_to_mark = []\<rparr>"

text \<open>
  \<open>main\<close>, after the command line is parsed. \<open>login\<close> is the outcome of
  the login request and \<open>GetFeeds\<close> that of \<open>client.GetFeeds()\<close>; \<open>now\<close> is the
  clock when the cutoff is calculated. A run that reaches the end returns the
  list of the mark-as-read requests it posted, each one as its \<open>story_hash\<close>
  list; an exception before that ends the run with no such request.
\<close>

definition main ::
  "ctx \<Rightarrow> error + unit \<Rightarrow> error + feed list \<Rightarrow> (string \<Rightarrow> nat \<Rightarrow> error + story list)
     \<Rightarrow> (nat \<Rightarrow> nat \<Rightarrow> detector) \<Rightarrow> int \<Rightarrow> (nat \<Rightarrow> nat \<Rightarrow> int)
     \<Rightarrow> (error + string option list list) option"
where
  "main c login GetFeeds pages detect now clock =
     (case login of
        Inl e \<Rightarrow> Some (Inl e)
      | Inr _ \<Rightarrow>
          (case GetFeeds of
             Inl e \<Rightarrow> Some (Inl e)
           | Inr all_feeds \<Rightarrow>
               (case compute_cutoff c now of
                  Inl e \<Rightarrow> Some (Inl e)
                | Inr cutoff \<Rightarrow>
                    (case feeds_loop c pages detect cutoff clock 0
                            (filter (\<lambda>f. unread_count f > 0) all_feeds) initial_vars of
                       None \<Rightarrow> None
                     | Some (Inl e) \<Rightarrow> Some (Inl e)
                     | Some (Inr v) \<Rightarrow>
                         Some (Inr (if all_stories_to_mark v \<noteq> []
                                    then [MarkStoriesAsRead (all_stories_to_mark v)]
                                    else []))))))"

section \<open>The specification's normalizer and rule chain\<close>







text \<open>
  What \<open>k\<close> polls starting at \<open>page\<close> deliver, and the condition under which
  the pagination loop stops after them: a poll has raised, or the stories
  loaded so far reach the feed's reported unread count.
\<close>

fun pages_upto :: "(nat \<Rightarrow> error + story list) \<Rightarrow> nat \<Rightarrow> nat \<Rightarrow> error + story list" where
  "pages_upto get page 0 = Inr []"
| "pages_upto get page (Suc k) =
     (case GetStories get page of
        Inl e \<Rightarrow> Inl e
      | Inr new_stories \<Rightarrow>
          (case pages_upto get (page + 1) k of
             Inl e \<Rightarrow> Inl e
           | Inr later_stories \<Rightarrow> Inr (new_stories @ later_stories)))"

definition count_met_or_failed :: "int \<Rightarrow> story list \<Rightarrow> error + story list \<Rightarrow> bool" where
  "count_met_or_failed count feed_stories polled =
     (case polled of
        Inl e \<Rightarrow> True
      | Inr new_stories \<Rightarrow> count \<le> int (length feed_stories + length new_stories))"

text \<open>The stories the pagination loop loads for a feed, when it returns them.\<close>

definition fetched :: "(string \<Rightarrow> nat \<Rightarrow> error + story list) \<Rightarrow> feed \<Rightarrow> story list" where
  "fetched pages f =
     (case fetch_loop (pages (feed_id f)) (unread_count f) 1 [] of
        Some (Inr feed_stories) \<Rightarrow> feed_stories
      | _ \<Rightarrow> [])"

section \<open>Data for the examples\<close>

text \<open>The command line with none of the optional flags given.\<close>

definition no_filters :: ctx where
  "no_filters =
     \<lparr>deduplicate = False, max_days_old = None, max_stories_per_feed = None, language = None\<rparr>"

text \<open>An unread story with the given id, title and numeric timestamp, all three
  well-formed; the id is also its hash and its permalink.\<close>

definition example_story :: "string \<Rightarrow> string \<Rightarrow> int option \<Rightarrow> story" where
  "example_story i t ts =
     \<lparr>story_id = JString (py_str i), story_hash = Some i, story_permalink = Some i,
      story_title = Some (JString (py_str t)), read_status = Some 0,
      story_timestamp = map_option Number ts\<rparr>"

text \<open>A detector that always raises.\<close>

definition failing_detector :: detector where
  "failing_detector t = Inl LangDetectException"

text \<open>The same value at every iteration.\<close>

definition always :: "'a \<Rightarrow> nat \<Rightarrow> 'a" where
  "always x n = x"

text \<open>
  A server with three unread stories of one feed on two pages and one story
  of every other feed on one page; every later page is empty.
\<close>

definition example_source :: "nat \<Rightarrow> error + story list" where
  "example_source page =
     (if page = 1 then Inr [example_story ''a'' ''A'' None, example_story ''b'' ''B'' None]
      else if page = 2 then Inr [example_story ''c'' ''C'' None]
      else Inr [])"

definition example_pages :: "string \<Rightarrow> nat \<Rightarrow> error + story list" where
  "example_pages fid page =
     (if fid = ''f1'' then example_source page
      else if page = 1 then Inr [example_story ''d'' ''D'' None]
      else Inr [])"

text \<open>A feed with the given id and reported unread count.\<close>

definition example_feed :: "string \<Rightarrow> int \<Rightarrow> feed" where
  "example_feed fid n = \<lparr>feed_id = fid, feed_title = None, nt = Some n\<rparr>"

section \<open>Title normalization\<close>


















lemma lower_from_length: "length (lower_from b s) = length s"
  by (induction s arbitrary: b) auto






lemma title_update [simp]: "title (s\<lparr>story_title := Some j\<rparr>) = j"
  by (simp add: title_def)











section \<open>The loop body\<close>

lemma compute_cutoff_positive:
  "compute_cutoff c run_start = Inr cutoff \<Longrightarrow> max_days_old c = Some d \<Longrightarrow> 0 < d
     \<Longrightarrow> cutoff = Some (run_start - d * 86400000000)"
  by (auto simp: compute_cutoff_def timedelta_def datetime_sub_def Let_def
      split: if_splits sum.splits)








lemma loop_body_result:
  "loop_body c detect cutoff now n s v = Inr v' \<Longrightarrow>
     v' = purge s v
     \<or> (if deduplicate c
         then \<exists>t. NormalizeTitle s = Inr t \<and> t \<notin> titles_seen v
                \<and> permalink s \<notin> permalinks_seen v \<and> v' = keep t s v
         else v' = v)"
  by (auto simp: loop_body_def split: if_splits sum.splits bool.splits)

lemma purge_fields [simp]:
  "feed_stories_to_mark (purge s v) = feed_stories_to_mark v @ [s]"
  "titles_seen (purge s v) = titles_seen v"
  "permalinks_seen (purge s v) = permalinks_seen v"
  "all_stories_to_mark (purge s v) = all_stories_to_mark v"
  by (simp_all add: purge_def)

lemma keep_fields [simp]:
  "feed_stories_to_mark (keep t s v) = feed_stories_to_mark v"
  "all_stories_to_mark (keep t s v) = all_stories_to_mark v"
  "titles_seen (keep t s v) = insert t (titles_seen v)"
  "permalinks_seen (keep t s v) = insert (permalink s) (permalinks_seen v)"
  by (simp_all add: keep_def)

lemma loop_body_marks:
  "loop_body c detect cutoff now n s v = Inr v' \<Longrightarrow>
     \<exists>xs. feed_stories_to_mark v' = feed_stories_to_mark v @ xs \<and> subseq xs [s]"
  by (auto dest!: loop_body_result split: if_splits)

lemma loop_body_grows:
  "loop_body c detect cutoff now n s v = Inr v' \<Longrightarrow>
     titles_seen v \<subseteq> titles_seen v' \<and> permalinks_seen v \<subseteq> permalinks_seen v'
     \<and> all_stories_to_mark v' = all_stories_to_mark v"
  by (auto dest!: loop_body_result split: if_splits)

lemma loop_body_dup_permalink:
  assumes "deduplicate c" "NormalizeTitle s = Inr t" "permalink s \<in> permalinks_seen v"
  shows "loop_body c detect cutoff now n s v = Inr (purge s v)"
  using assms by (simp add: loop_body_def)

lemma earlier_than_cutoff_positive:
  assumes "max_days_old c = Some d" "0 < d" "timestamp now s = Inr t"
  shows "earlier_than_cutoff c (Some k) now s = Inr (t < k)"
  using assms by (simp add: earlier_than_cutoff_def)

lemma only_age_body:
  assumes "\<not> deduplicate c" "max_stories_per_feed c = None" "language c = None"
    "earlier_than_cutoff c cutoff now s = Inr b"
  shows "loop_body c detect cutoff now n s v = Inr (if b then purge s v else v)"
  using assms
  by (simp add: loop_body_def filters_def limit_exceeded_def language_mismatch_def languages_def)

lemma only_cap_body:
  assumes "\<not> deduplicate c" "max_days_old c = None" "language c = None"
  shows "loop_body c detect cutoff now n s v = Inr (if limit_exceeded c n then purge s v else v)"
  using assms
  by (simp add: loop_body_def filters_def earlier_than_cutoff_def language_mismatch_def
      languages_def)

section \<open>The triage loop over a feed\<close>

lemma triage_loop_marks:
  "triage_loop c detect cutoff clock n stories v = Inr v' \<Longrightarrow>
     \<exists>xs. feed_stories_to_mark v' = feed_stories_to_mark v @ xs \<and> subseq xs stories"
proof (induction stories arbitrary: n v)
  case Nil
  then show ?case by auto
next
  case (Cons s ss)
  from Cons.prems obtain w where
    w: "loop_body c (detect n) cutoff (clock n) n s v = Inr w"
    and rest: "triage_loop c detect cutoff clock (Suc n) ss w = Inr v'"
    by (auto split: sum.splits)
  from loop_body_marks[OF w] obtain xs where
    xs: "feed_stories_to_mark w = feed_stories_to_mark v @ xs" "subseq xs [s]" by blast
  from Cons.IH[OF rest] obtain ys where
    ys: "feed_stories_to_mark v' = feed_stories_to_mark w @ ys" "subseq ys ss" by blast
  have "subseq (xs @ ys) ([s] @ ss)"
    using xs(2) ys(2) by (rule list_emb_append_mono)
  with xs ys show ?case by auto
qed

lemma triage_loop_grows:
  "triage_loop c detect cutoff clock n stories v = Inr v' \<Longrightarrow>
     titles_seen v \<subseteq> titles_seen v' \<and> permalinks_seen v \<subseteq> permalinks_seen v'
     \<and> all_stories_to_mark v' = all_stories_to_mark v"
proof (induction stories arbitrary: n v)
  case Nil
  then show ?case by auto
next
  case (Cons s ss)
  from Cons.prems obtain w where
    w: "loop_body c (detect n) cutoff (clock n) n s v = Inr w"
    and rest: "triage_loop c detect cutoff clock (Suc n) ss w = Inr v'"
    by (auto split: sum.splits)
  from loop_body_grows[OF w] Cons.IH[OF rest] show ?case by auto
qed

lemma loop_body_seen:
  assumes "loop_body c detect cutoff now n s v = Inr w"
  shows "(x \<in> titles_seen w \<longrightarrow> x \<in> titles_seen v \<or> NormalizeTitle s = Inr x)
         \<and> (p \<in> permalinks_seen w \<longrightarrow> p \<in> permalinks_seen v \<or> p = permalink s)"
proof -
  from loop_body_result[OF assms] consider
    (purged) "w = purge s v"
    | (kept) t where "NormalizeTitle s = Inr t" "w = keep t s v"
    | (same) "w = v"
    by (cases "deduplicate c") auto
  then show ?thesis
  proof cases
    case purged
    then show ?thesis by simp
  next
    case kept
    then show ?thesis by auto
  next
    case same
    then show ?thesis by simp
  qed
qed

lemma triage_loop_seen:
  "triage_loop c detect cutoff clock n stories v = Inr v' \<Longrightarrow>
     (x \<in> titles_seen v' \<longrightarrow> x \<in> titles_seen v \<or> (\<exists>s \<in> set stories. NormalizeTitle s = Inr x))
     \<and> (p \<in> permalinks_seen v' \<longrightarrow> p \<in> permalinks_seen v \<or> (\<exists>s \<in> set stories. p = permalink s))"
proof (induction stories arbitrary: n v)
  case Nil
  then show ?case by simp
next
  case (Cons s ss)
  from Cons.prems obtain w where
    w: "loop_body c (detect n) cutoff (clock n) n s v = Inr w"
    and rest: "triage_loop c detect cutoff clock (Suc n) ss w = Inr v'"
    by (auto split: sum.splits)
  have titles: "x \<in> titles_seen v' \<longrightarrow>
      x \<in> titles_seen v \<or> (\<exists>t \<in> set (s # ss). NormalizeTitle t = Inr x)"
  proof
    assume "x \<in> titles_seen v'"
    with Cons.IH[OF rest] have "x \<in> titles_seen w \<or> (\<exists>t \<in> set ss. NormalizeTitle t = Inr x)"
      by simp
    then show "x \<in> titles_seen v \<or> (\<exists>t \<in> set (s # ss). NormalizeTitle t = Inr x)"
    proof
      assume "x \<in> titles_seen w"
      with loop_body_seen[OF w, of x p] have "x \<in> titles_seen v \<or> NormalizeTitle s = Inr x"
        by simp
      then show ?thesis by auto
    next
      assume "\<exists>t \<in> set ss. NormalizeTitle t = Inr x"
      then show ?thesis by auto
    qed
  qed
  have links: "p \<in> permalinks_seen v' \<longrightarrow>
      p \<in> permalinks_seen v \<or> (\<exists>t \<in> set (s # ss). p = permalink t)"
  proof
    assume "p \<in> permalinks_seen v'"
    with Cons.IH[OF rest] have "p \<in> permalinks_seen w \<or> (\<exists>t \<in> set ss. p = permalink t)"
      by simp
    then show "p \<in> permalinks_seen v \<or> (\<exists>t \<in> set (s # ss). p = permalink t)"
    proof
      assume "p \<in> permalinks_seen w"
      with loop_body_seen[OF w, of x p] have "p \<in> permalinks_seen v \<or> p = permalink s"
        by simp
      then show ?thesis by auto
    next
      assume "\<exists>t \<in> set ss. p = permalink t"
      then show ?thesis by auto
    qed
  qed
  from titles links show ?case by (rule conjI)
qed

lemma triage_loop_seen_from_stories:
  assumes "triage_loop c detect cutoff clock n stories v = Inr v'"
  shows "Inr ` titles_seen v' \<subseteq> Inr ` titles_seen v \<union> NormalizeTitle ` set stories
         \<and> permalinks_seen v' \<subseteq> permalinks_seen v \<union> permalink ` set stories"
proof
  show "Inr ` titles_seen v' \<subseteq> Inr ` titles_seen v \<union> NormalizeTitle ` set stories"
  proof
    fix y :: "error + pystr"
    assume "y \<in> Inr ` titles_seen v'"
    then obtain x where y: "y = Inr x" and x: "x \<in> titles_seen v'" by (rule imageE)
    from triage_loop_seen[OF assms, of x None] x
    have "x \<in> titles_seen v \<or> (\<exists>s \<in> set stories. NormalizeTitle s = Inr x)" by simp
    then show "y \<in> Inr ` titles_seen v \<union> NormalizeTitle ` set stories"
    proof
      assume "x \<in> titles_seen v"
      then show ?thesis unfolding y by simp
    next
      assume "\<exists>s \<in> set stories. NormalizeTitle s = Inr x"
      then obtain s where "s \<in> set stories" "NormalizeTitle s = Inr x" by (rule bexE)
      then have "Inr x \<in> NormalizeTitle ` set stories" by (metis imageI)
      then show ?thesis unfolding y by simp
    qed
  qed
next
  show "permalinks_seen v' \<subseteq> permalinks_seen v \<union> permalink ` set stories"
  proof
    fix p
    assume "p \<in> permalinks_seen v'"
    with triage_loop_seen[OF assms, of "[]" p]
    have "p \<in> permalinks_seen v \<or> (\<exists>s \<in> set stories. p = permalink s)" by simp
    then show "p \<in> permalinks_seen v \<union> permalink ` set stories" by auto
  qed
qed

lemma triage_loop_keeps_marks:
  "triage_loop c detect cutoff clock n stories v = Inr v' \<Longrightarrow>
     set (feed_stories_to_mark v) \<subseteq> set (feed_stories_to_mark v')"
  by (auto dest!: triage_loop_marks)

lemma triage_loop_purges_seen_permalinks:
  assumes "deduplicate c"
  shows "triage_loop c detect cutoff clock n stories v = Inr v' \<Longrightarrow>
     \<forall>s \<in> set stories. permalink s \<in> permalinks_seen v \<longrightarrow> s \<in> set (feed_stories_to_mark v')"
proof (induction stories arbitrary: n v)
  case Nil
  then show ?case by simp
next
  case (Cons s ss)
  from Cons.prems obtain w where
    w: "loop_body c (detect n) cutoff (clock n) n s v = Inr w"
    and rest: "triage_loop c detect cutoff clock (Suc n) ss w = Inr v'"
    by (auto split: sum.splits)
  have head: "permalink s \<in> permalinks_seen v \<longrightarrow> s \<in> set (feed_stories_to_mark v')"
  proof
    assume "permalink s \<in> permalinks_seen v"
    with assms loop_body_result[OF w] have "w = purge s v"
      by simp
    then have "s \<in> set (feed_stories_to_mark w)" by simp
    with triage_loop_keeps_marks[OF rest] show "s \<in> set (feed_stories_to_mark v')" by blast
  qed
  have "permalinks_seen v \<subseteq> permalinks_seen w"
    using loop_body_grows[OF w] by simp
  with Cons.IH[OF rest] have
    "\<forall>t \<in> set ss. permalink t \<in> permalinks_seen v \<longrightarrow> t \<in> set (feed_stories_to_mark v')"
    by blast
  with head show ?case by simp
qed

lemma only_cap_loop:
  assumes "\<not> deduplicate c" "max_days_old c = None" "language c = None"
    "max_stories_per_feed c = Some m" "0 < m"
  shows "triage_loop c detect cutoff clock n stories v =
           Inr (v\<lparr>feed_stories_to_mark := feed_stories_to_mark v @ drop (nat m - n) stories\<rparr>)"
proof (induction stories arbitrary: n v)
  case Nil
  then show ?case by simp
next
  case (Cons s ss)
  show ?case
  proof (cases "m \<le> int n")
    case True
    then have "limit_exceeded c n" using assms by (simp add: limit_exceeded_def)
    moreover from True have "nat m - n = 0" "nat m - Suc n = 0" by simp_all
    ultimately show ?thesis
      using Cons.IH[of "Suc n" "purge s v"] only_cap_body[OF assms(1-3)]
      by (simp add: purge_def)
  next
    case False
    then have "\<not> limit_exceeded c n" using assms by (simp add: limit_exceeded_def)
    moreover from False have "nat m - n = Suc (nat m - Suc n)" by linarith
    ultimately show ?thesis
      using Cons.IH[of "Suc n" v] only_cap_body[OF assms(1-3)]
      by simp
  qed
qed

section \<open>Pagination\<close>

lemmas fetch_loop_induct = fetch_loop.raw_induct[rotated, consumes 1, case_names step]

lemma fetch_loop_done:
  "\<not> int (length fs) < count \<Longrightarrow> fetch_loop get count page fs = Some (Inr fs)"
  by (subst fetch_loop.simps) simp

lemma fetch_loop_failed:
  "int (length fs) < count \<Longrightarrow> GetStories get page = Inl e
     \<Longrightarrow> fetch_loop get count page fs = Some (Inl e)"
  by (subst fetch_loop.simps) simp

lemma fetch_loop_next:
  "int (length fs) < count \<Longrightarrow> GetStories get page = Inr new
     \<Longrightarrow> fetch_loop get count page fs = fetch_loop get count (page + 1) (fs @ new)"
  by (subst fetch_loop.simps) simp

lemma fetch_loop_returns_if:
  "count_met_or_failed count fs (pages_upto get page k) \<Longrightarrow> \<exists>r. fetch_loop get count page fs = Some r"
proof (induction k arbitrary: page fs)
  case 0
  then show ?case by (simp add: count_met_or_failed_def fetch_loop_done)
next
  case (Suc k)
  show ?case
  proof (cases "int (length fs) < count")
    case False
    then show ?thesis by (simp add: fetch_loop_done)
  next
    case True
    show ?thesis
    proof (cases "GetStories get page")
      case (Inl e)
      with True show ?thesis by (simp add: fetch_loop_failed)
    next
      case (Inr new)
      from Suc.prems Inr have "count_met_or_failed count (fs @ new) (pages_upto get (page + 1) k)"
        by (auto simp: count_met_or_failed_def split: sum.splits)
      from Suc.IH[OF this] True Inr show ?thesis by (simp add: fetch_loop_next)
    qed
  qed
qed

lemma fetch_loop_returns_only_if:
  "fetch_loop get count page fs = Some r \<Longrightarrow> \<exists>k. count_met_or_failed count fs (pages_upto get page k)"
proof (induction rule: fetch_loop_induct)
  case (step fetch_loop' get count page fs r)
  show ?case
  proof (cases "int (length fs) < count")
    case False
    then have "count_met_or_failed count fs (pages_upto get page 0)"
      by (simp add: count_met_or_failed_def)
    then show ?thesis by blast
  next
    case True
    show ?thesis
    proof (cases "GetStories get page")
      case (Inl e)
      then have "count_met_or_failed count fs (pages_upto get page (Suc 0))"
        by (simp add: count_met_or_failed_def)
      then show ?thesis by blast
    next
      case (Inr new)
      with True step(2) have "fetch_loop' get count (page + 1) (fs @ new) = Some r" by simp
      from step(1)[OF this] obtain k where
        "count_met_or_failed count (fs @ new) (pages_upto get (page + 1) k)" by blast
      with Inr have "count_met_or_failed count fs (pages_upto get page (Suc k))"
        by (auto simp: count_met_or_failed_def split: sum.splits)
      then show ?thesis by blast
    qed
  qed
qed

lemma pages_upto_all_empty:
  "(\<And>p. page \<le> p \<Longrightarrow> GetStories get p = Inr []) \<Longrightarrow> pages_upto get page k = Inr []"
  by (induction k arbitrary: page) simp_all

lemma fetch_loop_never_returns:
  assumes "\<And>p. page \<le> p \<Longrightarrow> GetStories get p = Inr []" "int (length fs) < count"
  shows "fetch_loop get count page fs = None"
proof (rule ccontr)
  assume "fetch_loop get count page fs \<noteq> None"
  then obtain r where "fetch_loop get count page fs = Some r" by auto
  from fetch_loop_returns_only_if[OF this] obtain k where
    "count_met_or_failed count fs (pages_upto get page k)" by blast
  with assms show False by (simp add: pages_upto_all_empty count_met_or_failed_def)
qed

lemma fetch_loop_result:
  "fetch_loop get count page fs = Some (Inr stories) \<Longrightarrow>
     count \<le> int (length stories) \<and> prefix fs stories"
proof (induction get count page fs "Inr stories :: error + story list" rule: fetch_loop_induct)
  case (step fetch_loop' get count page fs)
  show ?case
  proof (cases "int (length fs) < count")
    case False
    with step(2) show ?thesis by simp
  next
    case True
    show ?thesis
    proof (cases "GetStories get page")
      case (Inl e)
      with True step(2) show ?thesis by simp
    next
      case (Inr new)
      with True step(2) have "fetch_loop' get count (page + 1) (fs @ new) = Some (Inr stories)" by simp
      from step(1)[OF this] show ?thesis by (auto dest: append_prefixD)
    qed
  qed
qed

lemma pages_upto_never_empty:
  "(\<And>p. page \<le> p \<Longrightarrow> GetStories get p \<noteq> Inr []) \<Longrightarrow>
     (case pages_upto get page k of Inl e \<Rightarrow> True | Inr xs \<Rightarrow> k \<le> length xs)"
proof (induction k arbitrary: page)
  case 0
  then show ?case by simp
next
  case (Suc k)
  have here: "GetStories get page \<noteq> Inr []" using Suc.prems by simp
  have "case pages_upto get (page + 1) k of Inl e \<Rightarrow> True | Inr xs \<Rightarrow> k \<le> length xs"
    using Suc.prems by (intro Suc.IH) simp
  with here show ?case
    by (cases "GetStories get page"; cases "pages_upto get (page + 1) k")
       (auto simp: neq_Nil_conv)
qed

lemma fetch_loop_returns_when_never_empty:
  assumes "\<And>p. page \<le> p \<Longrightarrow> GetStories get p \<noteq> Inr []"
  shows "\<exists>r. fetch_loop get count page fs = Some r"
proof -
  have "count_met_or_failed count fs (pages_upto get page (nat count))"
    using pages_upto_never_empty[OF assms, of page "nat count"]
    by (auto simp: count_met_or_failed_def split: sum.splits)
  then show ?thesis by (rule fetch_loop_returns_if)
qed

lemma example_source_exhausted: "3 \<le> p \<Longrightarrow> GetStories example_source p = Inr []"
  by (simp add: GetStories_def example_source_def)

lemma example_source_1:
  "GetStories example_source 1 = Inr [example_story ''a'' ''A'' None, example_story ''b'' ''B'' None]"
  by (simp add: GetStories_def example_source_def unread_def example_story_def)

lemma example_source_2:
  "GetStories example_source (1 + 1) = Inr [example_story ''c'' ''C'' None]"
  by (simp add: GetStories_def example_source_def unread_def example_story_def)

lemma example_pages_f1: "example_pages ''f1'' = example_source"
  by (rule ext) (simp add: example_pages_def)

lemma example_fetch_f1:
  "fetch_loop (example_pages ''f1'') 3 (Suc 0) []
     = Some (Inr [example_story ''a'' ''A'' None, example_story ''b'' ''B'' None,
                  example_story ''c'' ''C'' None])"
proof -
  have "fetch_loop example_source 3 1 []
          = fetch_loop example_source 3 (1 + 1)
              ([] @ [example_story ''a'' ''A'' None, example_story ''b'' ''B'' None])"
    by (rule fetch_loop_next[OF _ example_source_1]) simp
  also have "\<dots> = fetch_loop example_source 3 (1 + 1 + 1)
              (([] @ [example_story ''a'' ''A'' None, example_story ''b'' ''B'' None])
                 @ [example_story ''c'' ''C'' None])"
    by (rule fetch_loop_next[OF _ example_source_2]) simp
  also have "\<dots> = Some (Inr [example_story ''a'' ''A'' None, example_story ''b'' ''B'' None,
                    example_story ''c'' ''C'' None])"
    by (simp add: fetch_loop_done)
  finally show ?thesis by (simp add: example_pages_f1)
qed

lemma example_fetch_f2:
  "fetch_loop (example_pages ''f2'') 1 (Suc 0) [] = Some (Inr [example_story ''d'' ''D'' None])"
proof -
  have g: "GetStories (example_pages ''f2'') 1 = Inr [example_story ''d'' ''D'' None]"
    by (simp add: GetStories_def example_pages_def unread_def example_story_def)
  have "fetch_loop (example_pages ''f2'') 1 1 []
          = fetch_loop (example_pages ''f2'') 1 (1 + 1) ([] @ [example_story ''d'' ''D'' None])"
    by (rule fetch_loop_next[OF _ g]) simp
  also have "\<dots> = Some (Inr [example_story ''d'' ''D'' None])"
    by (simp add: fetch_loop_done)
  finally show ?thesis by simp
qed

section \<open>The loop over the feeds\<close>

lemma feed_iteration_grows:
  assumes "feed_iteration c pages detect cutoff clock f v = Some (Inr v')"
  shows "titles_seen v \<subseteq> titles_seen v' \<and> permalinks_seen v \<subseteq> permalinks_seen v'"
proof -
  from assms obtain feed_stories w where
    "triage_loop c detect cutoff clock 0 feed_stories (v\<lparr>feed_stories_to_mark := []\<rparr>) = Inr w"
    and v': "v' = (if feed_stories_to_mark w \<noteq> []
                   then w\<lparr>all_stories_to_mark := all_stories_to_mark w @ feed_stories_to_mark w\<rparr>
                   else w)"
    by (auto simp: feed_iteration_def split: option.splits sum.splits)
  from triage_loop_grows[OF this(1)] v' show ?thesis by auto
qed

lemma feeds_loop_grows:
  "feeds_loop c pages detect cutoff clock i feeds v = Some (Inr v') \<Longrightarrow>
     titles_seen v \<subseteq> titles_seen v' \<and> permalinks_seen v \<subseteq> permalinks_seen v'"
proof (induction feeds arbitrary: i v)
  case Nil
  then show ?case by simp
next
  case (Cons f fs)
  from Cons.prems obtain w where
    w: "feed_iteration c pages (detect i) cutoff (clock i) f v = Some (Inr w)"
    and rest: "feeds_loop c pages detect cutoff clock (Suc i) fs w = Some (Inr v')"
    by (auto split: option.splits sum.splits)
  from feed_iteration_grows[OF w] Cons.IH[OF rest] show ?case by blast
qed

lemma feed_iteration_result:
  assumes "feed_iteration c pages detect cutoff clock f v = Some (Inr v')"
  shows "all_stories_to_mark v' = all_stories_to_mark v @ feed_stories_to_mark v'
         \<and> subseq (feed_stories_to_mark v') (fetched pages f)"
proof -
  from assms obtain feed_stories w where
    f: "fetch_loop (pages (feed_id f)) (unread_count f) 1 [] = Some (Inr feed_stories)"
    and t: "triage_loop c detect cutoff clock 0 feed_stories (v\<lparr>feed_stories_to_mark := []\<rparr>) = Inr w"
    and v': "v' = (if feed_stories_to_mark w \<noteq> []
                   then w\<lparr>all_stories_to_mark := all_stories_to_mark w @ feed_stories_to_mark w\<rparr>
                   else w)"
    by (auto simp: feed_iteration_def split: option.splits sum.splits)
  from triage_loop_grows[OF t] have a: "all_stories_to_mark w = all_stories_to_mark v" by simp
  from triage_loop_marks[OF t] have s: "subseq (feed_stories_to_mark w) feed_stories" by simp
  from f have "fetched pages f = feed_stories" by (simp add: fetched_def)
  with a s v' show ?thesis by auto
qed

lemma feeds_loop_result:
  "feeds_loop c pages detect cutoff clock i feeds v = Some (Inr v') \<Longrightarrow>
     length (feed_results c pages detect cutoff clock i feeds v) = length feeds
     \<and> all_stories_to_mark v' =
         all_stories_to_mark v
           @ concat (map feed_stories_to_mark (feed_results c pages detect cutoff clock i feeds v))
     \<and> subseq (concat (map feed_stories_to_mark (feed_results c pages detect cutoff clock i feeds v)))
         (concat (map (fetched pages) feeds))"
proof (induction feeds arbitrary: i v)
  case Nil
  then show ?case by simp
next
  case (Cons f fs)
  from Cons.prems obtain w where
    w: "feed_iteration c pages (detect i) cutoff (clock i) f v = Some (Inr w)"
    and rest: "feeds_loop c pages detect cutoff clock (Suc i) fs w = Some (Inr v')"
    by (auto split: option.splits sum.splits)
  let ?rs = "feed_results c pages detect cutoff clock (Suc i) fs w"
  have unfold: "feed_results c pages detect cutoff clock i (f # fs) v = w # ?rs"
    using w by simp
  from feed_iteration_result[OF w] have
    h1: "all_stories_to_mark w = all_stories_to_mark v @ feed_stories_to_mark w"
    and h2: "subseq (feed_stories_to_mark w) (fetched pages f)" by simp_all
  from Cons.IH[OF rest] have
    t1: "length ?rs = length fs"
    and t2: "all_stories_to_mark v' = all_stories_to_mark w @ concat (map feed_stories_to_mark ?rs)"
    and t3: "subseq (concat (map feed_stories_to_mark ?rs)) (concat (map (fetched pages) fs))"
    by simp_all
  have "subseq (feed_stories_to_mark w @ concat (map feed_stories_to_mark ?rs))
          (fetched pages f @ concat (map (fetched pages) fs))"
    using h2 t3 by (rule list_emb_append_mono)
  with unfold h1 t1 t2 show ?case by simp
qed

lemma example_run_with_cap:
  "main (no_filters\<lparr>max_stories_per_feed := Some 1\<rparr>) (Inr ())
         (Inr [example_feed ''f0'' 0, example_feed ''f1'' 3, example_feed ''f2'' 1])
         example_pages (always (always failing_detector)) 0 (always (always 0))
    = Some (Inr [[Some ''b'', Some ''c'']])"
  by (simp add: main_def compute_cutoff_def no_filters_def example_feed_def unread_count_def
      feed_iteration_def example_fetch_f1 example_fetch_f2 initial_vars_def loop_body_def
      filters_def earlier_than_cutoff_def limit_exceeded_def language_mismatch_def languages_def
      keep_def purge_def MarkStoriesAsRead_def hash_def example_story_def)

lemma example_run_without_filters:
  "main no_filters (Inr ())
         (Inr [example_feed ''f0'' 0, example_feed ''f1'' 3, example_feed ''f2'' 1])
         example_pages (always (always failing_detector)) 0 (always (always 0))
    = Some (Inr [])"
  by (simp add: main_def compute_cutoff_def no_filters_def example_feed_def unread_count_def
      feed_iteration_def example_fetch_f1 example_fetch_f2 initial_vars_def loop_body_def
      filters_def earlier_than_cutoff_def limit_exceeded_def language_mismatch_def languages_def
      keep_def purge_def MarkStoriesAsRead_def hash_def example_story_def)

section \<open>The claims about the triage rules\<close>



text \<open>
  C2. An iteration of the body that returns either purges the story and
  leaves \<open>titles_seen\<close> and \<open>permalinks_seen\<close> as they were, or keeps it; a
  kept story's normalized title and permalink were not in the sets when the
  rules were checked and are inserted afterwards (only with \<open>deduplicate\<close>;
  without it the sets never change). So over a feed and over the whole run
  the sets only grow, and within a feed only by normalized titles and
  permalinks of that feed's stories. Of the stories titled \<open>Cats\<close> and
  \<open>cats!\<close>, in this order, the first is kept and the second purged.
\<close>

theorem dedup_sets_hold_kept_stories_only:
  "(loop_body c detect cutoff now n s v = Inr v' \<longrightarrow>
      (v' = purge s v
        \<and> feed_stories_to_mark v' = feed_stories_to_mark v @ [s]
        \<and> titles_seen v' = titles_seen v \<and> permalinks_seen v' = permalinks_seen v)
      \<or> (feed_stories_to_mark v' = feed_stories_to_mark v
        \<and> (if deduplicate c
            then \<exists>t. NormalizeTitle s = Inr t \<and> v' = keep t s v
              \<and> t \<notin> titles_seen v \<and> permalink s \<notin> permalinks_seen v
              \<and> titles_seen v' = insert t (titles_seen v)
              \<and> permalinks_seen v' = insert (permalink s) (permalinks_seen v)
            else v' = v \<and> titles_seen v' = titles_seen v
              \<and> permalinks_seen v' = permalinks_seen v)))
   \<and> (triage_loop c detects cutoff clock n stories v = Inr v'' \<longrightarrow>
        titles_seen v \<subseteq> titles_seen v'' \<and> permalinks_seen v \<subseteq> permalinks_seen v''
        \<and> Inr ` titles_seen v'' \<subseteq> Inr ` titles_seen v \<union> NormalizeTitle ` set stories
        \<and> permalinks_seen v'' \<subseteq> permalinks_seen v \<union> permalink ` set stories)
   \<and> (feeds_loop c pages detectss cutoff clocks i feeds v = Some (Inr v''') \<longrightarrow>
        titles_seen v \<subseteq> titles_seen v''' \<and> permalinks_seen v \<subseteq> permalinks_seen v''')
   \<and> triage_loop (no_filters\<lparr>deduplicate := True\<rparr>) detects None clock 0
        [example_story ''a'' ''Cats'' None, example_story ''b'' ''cats!'' None] initial_vars
       = Inr (initial_vars\<lparr>titles_seen := {py_str ''cats''}, permalinks_seen := {Some ''a''},
                feed_stories_to_mark := [example_story ''b'' ''cats!'' None]\<rparr>)"
proof -
  have body: "loop_body c detect cutoff now n s v = Inr v' \<longrightarrow>
      (v' = purge s v
        \<and> feed_stories_to_mark v' = feed_stories_to_mark v @ [s]
        \<and> titles_seen v' = titles_seen v \<and> permalinks_seen v' = permalinks_seen v)
      \<or> (feed_stories_to_mark v' = feed_stories_to_mark v
        \<and> (if deduplicate c
            then \<exists>t. NormalizeTitle s = Inr t \<and> v' = keep t s v
              \<and> t \<notin> titles_seen v \<and> permalink s \<notin> permalinks_seen v
              \<and> titles_seen v' = insert t (titles_seen v)
              \<and> permalinks_seen v' = insert (permalink s) (permalinks_seen v)
            else v' = v \<and> titles_seen v' = titles_seen v
              \<and> permalinks_seen v' = permalinks_seen v))"
  proof
    assume "loop_body c detect cutoff now n s v = Inr v'"
    from loop_body_result[OF this] show
      "(v' = purge s v
        \<and> feed_stories_to_mark v' = feed_stories_to_mark v @ [s]
        \<and> titles_seen v' = titles_seen v \<and> permalinks_seen v' = permalinks_seen v)
      \<or> (feed_stories_to_mark v' = feed_stories_to_mark v
        \<and> (if deduplicate c
            then \<exists>t. NormalizeTitle s = Inr t \<and> v' = keep t s v
              \<and> t \<notin> titles_seen v \<and> permalink s \<notin> permalinks_seen v
              \<and> titles_seen v' = insert t (titles_seen v)
              \<and> permalinks_seen v' = insert (permalink s) (permalinks_seen v)
            else v' = v \<and> titles_seen v' = titles_seen v
              \<and> permalinks_seen v' = permalinks_seen v))"
      by (cases "deduplicate c") auto
  qed
  have loop: "triage_loop c detects cutoff clock n stories v = Inr v'' \<longrightarrow>
        titles_seen v \<subseteq> titles_seen v'' \<and> permalinks_seen v \<subseteq> permalinks_seen v''
        \<and> Inr ` titles_seen v'' \<subseteq> Inr ` titles_seen v \<union> NormalizeTitle ` set stories
        \<and> permalinks_seen v'' \<subseteq> permalinks_seen v \<union> permalink ` set stories"
  proof
    assume t: "triage_loop c detects cutoff clock n stories v = Inr v''"
    from triage_loop_grows[OF t] triage_loop_seen_from_stories[OF t] show
      "titles_seen v \<subseteq> titles_seen v'' \<and> permalinks_seen v \<subseteq> permalinks_seen v''
        \<and> Inr ` titles_seen v'' \<subseteq> Inr ` titles_seen v \<union> NormalizeTitle ` set stories
        \<and> permalinks_seen v'' \<subseteq> permalinks_seen v \<union> permalink ` set stories"
      by simp
  qed
  have run: "feeds_loop c pages detectss cutoff clocks i feeds v = Some (Inr v''') \<longrightarrow>
        titles_seen v \<subseteq> titles_seen v''' \<and> permalinks_seen v \<subseteq> permalinks_seen v'''"
    using feeds_loop_grows by blast
  have n1: "NormalizeTitle (example_story ''a'' ''Cats'' None) = Inr (py_str ''cats'')"
    by code_simp
  have n2: "NormalizeTitle (example_story ''b'' ''cats!'' None) = Inr (py_str ''cats'')"
    by code_simp
  have p: "permalink (example_story ''a'' ''Cats'' None) = Some ''a''"
    by (simp add: permalink_def example_story_def)
  have ex: "triage_loop (no_filters\<lparr>deduplicate := True\<rparr>) detects None clock 0
        [example_story ''a'' ''Cats'' None, example_story ''b'' ''cats!'' None] initial_vars
       = Inr (initial_vars\<lparr>titles_seen := {py_str ''cats''}, permalinks_seen := {Some ''a''},
                feed_stories_to_mark := [example_story ''b'' ''cats!'' None]\<rparr>)"
    by (simp add: loop_body_def filters_def earlier_than_cutoff_def limit_exceeded_def
        language_mismatch_def languages_def no_filters_def initial_vars_def keep_def purge_def
        n1 n2 p)
  from body loop run ex show ?thesis by (intro conjI)
qed

text \<open>
  The two iterations of the example one by one: the first story is kept and
  seeds the sets, the second is purged and leaves them unchanged.
\<close>

theorem dedup_sets_hold_kept_stories_only_witness:
  "loop_body (no_filters\<lparr>deduplicate := True\<rparr>) failing_detector None 0 1
       (example_story ''b'' ''cats!'' None)
       (initial_vars\<lparr>titles_seen := {py_str ''cats''}, permalinks_seen := {Some ''a''}\<rparr>)
     = Inr (purge (example_story ''b'' ''cats!'' None)
         (initial_vars\<lparr>titles_seen := {py_str ''cats''}, permalinks_seen := {Some ''a''}\<rparr>))
   \<and> titles_seen (purge (example_story ''b'' ''cats!'' None)
         (initial_vars\<lparr>titles_seen := {py_str ''cats''}, permalinks_seen := {Some ''a''}\<rparr>))
       = {py_str ''cats''}
   \<and> permalinks_seen (purge (example_story ''b'' ''cats!'' None)
         (initial_vars\<lparr>titles_seen := {py_str ''cats''}, permalinks_seen := {Some ''a''}\<rparr>))
       = {Some ''a''}
   \<and> loop_body (no_filters\<lparr>deduplicate := True\<rparr>) failing_detector None 0 0
       (example_story ''a'' ''Cats'' None) initial_vars
     = Inr (initial_vars\<lparr>titles_seen := {py_str ''cats''}, permalinks_seen := {Some ''a''}\<rparr>)"
proof -
  let ?c = "no_filters\<lparr>deduplicate := True\<rparr>"
  let ?a = "example_story ''a'' ''Cats'' None"
  let ?b = "example_story ''b'' ''cats!'' None"
  let ?v = "initial_vars\<lparr>titles_seen := {py_str ''cats''}, permalinks_seen := {Some ''a''}\<rparr>"
  have n1: "NormalizeTitle ?a = Inr (py_str ''cats'')" by code_simp
  have n2: "NormalizeTitle ?b = Inr (py_str ''cats'')" by code_simp
  have p: "permalink ?a = Some ''a''" by (simp add: permalink_def example_story_def)
  have b: "loop_body ?c failing_detector None 0 1 ?b ?v = Inr (purge ?b ?v)"
    by (simp add: loop_body_def no_filters_def initial_vars_def n2)
  have a: "loop_body ?c failing_detector None 0 0 ?a initial_vars = Inr ?v"
    by (simp add: loop_body_def filters_def earlier_than_cutoff_def limit_exceeded_def
        language_mismatch_def languages_def keep_def no_filters_def initial_vars_def n1 p)
  from dedup_sets_hold_kept_stories_only[where c = ?c and detect = failing_detector
      and cutoff = None and now = 0 and n = 1 and s = ?b and v = ?v and v' = "purge ?b ?v"] b
  have "titles_seen (purge ?b ?v) = titles_seen ?v \<and> permalinks_seen (purge ?b ?v) = permalinks_seen ?v"
    by (simp add: initial_vars_def)
  with a b show ?thesis by (simp add: initial_vars_def)
qed

text \<open>
  C4. With \<open>deduplicate\<close>, an absent permalink is the value \<open>None\<close> in
  \<open>permalinks_seen\<close>: keeping a story without permalink inserts \<open>None\<close>;
  once \<open>None\<close> is in the set, a story without permalink whose normalized
  title is not in \<open>titles_seen\<close> fails the title rule, matches the permalink
  rule and is purged, whatever the later rules would say; and \<open>None\<close> stays
  in the set, so that every story without permalink later in the feed is
  purged.
\<close>

theorem missing_permalink_counts_as_permalink:
  "(story_permalink s = None \<longrightarrow> None \<in> permalinks_seen (keep t s v))
   \<and> (deduplicate c \<and> story_permalink s = None
        \<and> loop_body c detect cutoff now n s v = Inr v'
        \<and> feed_stories_to_mark v' = feed_stories_to_mark v \<longrightarrow>
        None \<in> permalinks_seen v')
   \<and> (deduplicate c \<and> None \<in> permalinks_seen v \<and> story_permalink s = None
        \<and> NormalizeTitle s = Inr t \<and> t \<notin> titles_seen v \<longrightarrow>
        \<not> (deduplicate c \<and> t \<in> titles_seen v)
        \<and> (deduplicate c \<and> permalink s \<in> permalinks_seen v)
        \<and> loop_body c detect cutoff now n s v = Inr (purge s v))
   \<and> (deduplicate c \<and> None \<in> permalinks_seen v
        \<and> triage_loop c detects cutoff clock n stories v = Inr v'' \<longrightarrow>
        None \<in> permalinks_seen v''
        \<and> (\<forall>t \<in> set stories. story_permalink t = None \<longrightarrow> t \<in> set (feed_stories_to_mark v'')))"
proof -
  have a: "story_permalink s = None \<longrightarrow> None \<in> permalinks_seen (keep t s v)"
    by (simp add: permalink_def)
  have a': "deduplicate c \<and> story_permalink s = None
        \<and> loop_body c detect cutoff now n s v = Inr v'
        \<and> feed_stories_to_mark v' = feed_stories_to_mark v \<longrightarrow>
        None \<in> permalinks_seen v'"
  proof (intro impI, elim conjE)
    assume d: "deduplicate c" and p: "story_permalink s = None"
      and l: "loop_body c detect cutoff now n s v = Inr v'"
      and m: "feed_stories_to_mark v' = feed_stories_to_mark v"
    from m have "v' \<noteq> purge s v" by auto
    with loop_body_result[OF l] d obtain u where "v' = keep u s v" by auto
    with p show "None \<in> permalinks_seen v'" by (simp add: permalink_def)
  qed
  have b: "deduplicate c \<and> None \<in> permalinks_seen v \<and> story_permalink s = None
        \<and> NormalizeTitle s = Inr t \<and> t \<notin> titles_seen v \<longrightarrow>
        \<not> (deduplicate c \<and> t \<in> titles_seen v)
        \<and> (deduplicate c \<and> permalink s \<in> permalinks_seen v)
        \<and> loop_body c detect cutoff now n s v = Inr (purge s v)"
    by (simp add: permalink_def loop_body_dup_permalink)
  have c: "deduplicate c \<and> None \<in> permalinks_seen v
        \<and> triage_loop c detects cutoff clock n stories v = Inr v'' \<longrightarrow>
        None \<in> permalinks_seen v''
        \<and> (\<forall>t \<in> set stories. story_permalink t = None \<longrightarrow> t \<in> set (feed_stories_to_mark v''))"
  proof (intro impI, elim conjE)
    assume d: "deduplicate c" and m: "None \<in> permalinks_seen v"
      and t: "triage_loop c detects cutoff clock n stories v = Inr v''"
    from triage_loop_grows[OF t] m have "None \<in> permalinks_seen v''" by blast
    moreover from triage_loop_purges_seen_permalinks[OF d t] m
    have "\<forall>t \<in> set stories. story_permalink t = None \<longrightarrow> t \<in> set (feed_stories_to_mark v'')"
      by (simp add: permalink_def)
    ultimately show "None \<in> permalinks_seen v''
        \<and> (\<forall>t \<in> set stories. story_permalink t = None \<longrightarrow> t \<in> set (feed_stories_to_mark v''))"
      by blast
  qed
  from a a' b c show ?thesis by (intro conjI)
qed

text \<open>
  Two stories without permalink and with different titles: the first, once
  kept, makes the second a duplicate.
\<close>

theorem missing_permalink_counts_as_permalink_witness:
  "loop_body (no_filters\<lparr>deduplicate := True\<rparr>) failing_detector None 0 0
       ((example_story ''a'' ''First'' None)\<lparr>story_permalink := None\<rparr>) initial_vars
     = Inr (keep (py_str ''first'')
         ((example_story ''a'' ''First'' None)\<lparr>story_permalink := None\<rparr>) initial_vars)
   \<and> None \<in> permalinks_seen (keep (py_str ''first'')
       ((example_story ''a'' ''First'' None)\<lparr>story_permalink := None\<rparr>) initial_vars)
   \<and> loop_body (no_filters\<lparr>deduplicate := True\<rparr>) failing_detector None 0 1
       ((example_story ''b'' ''Second'' None)\<lparr>story_permalink := None\<rparr>)
       (keep (py_str ''first'')
          ((example_story ''a'' ''First'' None)\<lparr>story_permalink := None\<rparr>) initial_vars)
     = Inr (purge ((example_story ''b'' ''Second'' None)\<lparr>story_permalink := None\<rparr>)
         (keep (py_str ''first'')
            ((example_story ''a'' ''First'' None)\<lparr>story_permalink := None\<rparr>) initial_vars))"
proof -
  let ?c = "no_filters\<lparr>deduplicate := True\<rparr>"
  let ?a = "(example_story ''a'' ''First'' None)\<lparr>story_permalink := None\<rparr>"
  let ?b = "(example_story ''b'' ''Second'' None)\<lparr>story_permalink := None\<rparr>"
  let ?v = "keep (py_str ''first'') ?a initial_vars"
  have d: "deduplicate ?c" by (simp add: no_filters_def)
  have pa: "story_permalink ?a = None" and pb: "story_permalink ?b = None" by simp_all
  have n1: "NormalizeTitle ?a = Inr (py_str ''first'')" by code_simp
  have n2: "NormalizeTitle ?b = Inr (py_str ''second'')" by code_simp
  have ne: "py_str ''second'' \<noteq> py_str ''first''" by (simp add: py_str_def)
  have t: "py_str ''second'' \<notin> titles_seen ?v"
    using ne by (simp add: initial_vars_def)
  have k: "loop_body ?c failing_detector None 0 0 ?a initial_vars = Inr ?v"
    by (simp add: loop_body_def filters_def earlier_than_cutoff_def limit_exceeded_def
        language_mismatch_def languages_def no_filters_def initial_vars_def n1 permalink_def)
  from missing_permalink_counts_as_permalink[where s = ?a and t = "py_str ''first''"
      and v = initial_vars] pa
  have m: "None \<in> permalinks_seen ?v" by blast
  from missing_permalink_counts_as_permalink[where c = ?c and s = ?b and v = ?v
      and t = "py_str ''second''" and detect = failing_detector and cutoff = None and now = 0
      and n = 1] d pb n2 t m
  have "loop_body ?c failing_detector None 0 1 ?b ?v = Inr (purge ?b ?v)" by blast
  with k m show ?thesis by blast
qed

text \<open>
  C8. With \<open>max_stories_per_feed\<close> a positive integer \<open>m\<close>, the cap
  condition holds exactly for the indices \<open>n \<ge> m\<close>, counted from 0. With no
  other filter enabled, the body purges a story exactly when its index is at
  least \<open>m\<close>, and the loop over a feed purges exactly the stories after the
  first \<open>m\<close>; with \<open>m = 2\<close> and three stories, whatever they are, it keeps
  the first two and purges the third.
\<close>

theorem cap_purges_from_index_max_stories_per_feed:
  assumes "max_stories_per_feed c = Some m" "0 < m"
  shows "(limit_exceeded c n \<longleftrightarrow> m \<le> int n)
   \<and> (\<not> deduplicate c \<and> max_days_old c = None \<and> language c = None \<longrightarrow>
        loop_body c detect cutoff now n s v = Inr (if m \<le> int n then purge s v else v)
        \<and> triage_loop c detects cutoff clock 0 stories v =
            Inr (v\<lparr>feed_stories_to_mark := feed_stories_to_mark v @ drop (nat m) stories\<rparr>))
   \<and> triage_loop (no_filters\<lparr>max_stories_per_feed := Some 2\<rparr>) detects cutoff clock 0
        [s0, s1, s2] v
       = Inr (v\<lparr>feed_stories_to_mark := feed_stories_to_mark v @ [s2]\<rparr>)"
proof -
  have a: "limit_exceeded c n \<longleftrightarrow> m \<le> int n"
    using assms by (auto simp: limit_exceeded_def)
  have b: "\<not> deduplicate c \<and> max_days_old c = None \<and> language c = None \<longrightarrow>
        loop_body c detect cutoff now n s v = Inr (if m \<le> int n then purge s v else v)
        \<and> triage_loop c detects cutoff clock 0 stories v =
            Inr (v\<lparr>feed_stories_to_mark := feed_stories_to_mark v @ drop (nat m) stories\<rparr>)"
    using only_cap_body[of c detect cutoff now n s v]
      only_cap_loop[of c m detects cutoff clock 0 stories v] assms a
    by simp
  have "triage_loop (no_filters\<lparr>max_stories_per_feed := Some 2\<rparr>) detects cutoff clock 0
        [s0, s1, s2] v
       = Inr (v\<lparr>feed_stories_to_mark := feed_stories_to_mark v @ drop (nat 2 - 0) [s0, s1, s2]\<rparr>)"
    by (rule only_cap_loop) (simp_all add: no_filters_def)
  then have c: "triage_loop (no_filters\<lparr>max_stories_per_feed := Some 2\<rparr>) detects cutoff clock 0
        [s0, s1, s2] v
       = Inr (v\<lparr>feed_stories_to_mark := feed_stories_to_mark v @ [s2]\<rparr>)"
    by simp
  from a b c show ?thesis by blast
qed

text \<open>The example at three stories, and the cap condition at the indices 1 and 2.\<close>

theorem cap_purges_from_index_max_stories_per_feed_witness:
  "limit_exceeded (no_filters\<lparr>max_stories_per_feed := Some 2\<rparr>) 2
   \<and> \<not> limit_exceeded (no_filters\<lparr>max_stories_per_feed := Some 2\<rparr>) 1
   \<and> triage_loop (no_filters\<lparr>max_stories_per_feed := Some 2\<rparr>) (always failing_detector) None
        (always 0) 0
        [example_story ''a'' ''A'' None, example_story ''b'' ''B'' None,
         example_story ''c'' ''C'' None] initial_vars
     = Inr (initial_vars\<lparr>feed_stories_to_mark := [example_story ''c'' ''C'' None]\<rparr>)"
proof -
  let ?c = "no_filters\<lparr>max_stories_per_feed := Some 2\<rparr>"
  have m: "max_stories_per_feed ?c = Some 2" and p: "(0::int) < 2" by simp_all
  have off: "\<not> deduplicate ?c \<and> max_days_old ?c = None \<and> language ?c = None"
    by (simp add: no_filters_def)
  from cap_purges_from_index_max_stories_per_feed[OF m p, of 2] have a: "limit_exceeded ?c 2"
    by simp
  from cap_purges_from_index_max_stories_per_feed[OF m p, of 1] have b: "\<not> limit_exceeded ?c 1"
    by simp
  from cap_purges_from_index_max_stories_per_feed[OF m p, where detects = "always failing_detector"
      and cutoff = None and clock = "always 0" and v = initial_vars
      and stories = "[example_story ''a'' ''A'' None, example_story ''b'' ''B'' None,
         example_story ''c'' ''C'' None]"] off
  have "triage_loop ?c (always failing_detector) None (always 0) 0
        [example_story ''a'' ''A'' None, example_story ''b'' ''B'' None,
         example_story ''c'' ''C'' None] initial_vars
     = Inr (initial_vars\<lparr>feed_stories_to_mark := [example_story ''c'' ''C'' None]\<rparr>)"
    by (simp add: initial_vars_def)
  with a b show ?thesis by blast
qed



text \<open>
  C10, as the code has it. A story whose \<open>story_timestamp\<close> is absent,
  \<open>null\<close>, the number 0 or the empty string has the clock at the moment of
  evaluation as its timestamp; if the clock then reads no less than at the
  start of the run, the age condition does not hold for it, whatever
  \<open>max_days_old\<close> is. Every other value is truthy and is converted: a number
  other than 0 and a string of at least one digit are read as seconds since
  the epoch.
\<close>

theorem story_without_timestamp_is_never_too_old:
  assumes "compute_cutoff c run_start = Inr cutoff"
    and "story_timestamp s = None \<or> story_timestamp s = Some (Number 0)
         \<or> story_timestamp s = Some (Digits [])"
    and "run_start \<le> now"
  shows "timestamp now s = Inr now
   \<and> earlier_than_cutoff c cutoff now s = Inr False
   \<and> (m \<noteq> 0 \<longrightarrow> timestamp now (s\<lparr>story_timestamp := Some (Number m)\<rparr>) = fromtimestamp m)
   \<and> timestamp now (s\<lparr>story_timestamp := Some (Digits (d # ds))\<rparr>)
       = fromtimestamp (float (Digits (d # ds)))"
proof -
  from assms(2) have t: "timestamp now s = Inr now"
    by (auto simp: timestamp_def)
  have "earlier_than_cutoff c cutoff now s = Inr False"
  proof (cases "max_days_old c")
    case None
    then show ?thesis by (simp add: earlier_than_cutoff_def)
  next
    case (Some k)
    show ?thesis
    proof (cases "0 < k")
      case True
      with Some assms(1) have "cutoff = Some (run_start - k * 86400000000)"
        by (simp add: compute_cutoff_positive)
      moreover from True assms(3) have "\<not> now < run_start - k * 86400000000" by simp
      ultimately show ?thesis
        using Some True t by (simp add: earlier_than_cutoff_positive)
    next
      case False
      with Some show ?thesis by (simp add: earlier_than_cutoff_def)
    qed
  qed
  with t show ?thesis by (simp add: timestamp_def)
qed

text \<open>
  A story without timestamp, one with the number 0 and one with the empty
  string, with \<open>max_days_old = 7\<close>.
\<close>

theorem story_without_timestamp_is_never_too_old_witness:
  "compute_cutoff (no_filters\<lparr>max_days_old := Some 7\<rparr>) 1700000000000000
     = Inr (Some 1699395200000000)
   \<and> earlier_than_cutoff (no_filters\<lparr>max_days_old := Some 7\<rparr>) (Some 1699395200000000)
        1700000000000123 (example_story ''a'' ''No timestamp'' None) = Inr False
   \<and> earlier_than_cutoff (no_filters\<lparr>max_days_old := Some 7\<rparr>) (Some 1699395200000000)
        1700000000000123 (example_story ''b'' ''Timestamp zero'' (Some 0)) = Inr False
   \<and> timestamp 1700000000000123 (example_story ''b'' ''Timestamp zero'' (Some 0))
       = Inr 1700000000000123
   \<and> earlier_than_cutoff (no_filters\<lparr>max_days_old := Some 7\<rparr>) (Some 1699395200000000)
        1700000000000123
        ((example_story ''c'' ''Empty string'' None)\<lparr>story_timestamp := Some (Digits [])\<rparr>)
       = Inr False"
proof -
  let ?c = "no_filters\<lparr>max_days_old := Some 7\<rparr>"
  let ?e = "(example_story ''c'' ''Empty string'' None)\<lparr>story_timestamp := Some (Digits [])\<rparr>"
  have cut: "compute_cutoff ?c 1700000000000000 = Inr (Some 1699395200000000)"
    by (simp add: compute_cutoff_def timedelta_def datetime_sub_def datetime_min_def
        datetime_max_def)
  have le: "(1700000000000000::int) \<le> 1700000000000123" by simp
  have a: "story_timestamp (example_story ''a'' ''No timestamp'' None) = None
           \<or> story_timestamp (example_story ''a'' ''No timestamp'' None) = Some (Number 0)
           \<or> story_timestamp (example_story ''a'' ''No timestamp'' None) = Some (Digits [])"
    by (simp add: example_story_def)
  have b: "story_timestamp (example_story ''b'' ''Timestamp zero'' (Some 0)) = None
           \<or> story_timestamp (example_story ''b'' ''Timestamp zero'' (Some 0)) = Some (Number 0)
           \<or> story_timestamp (example_story ''b'' ''Timestamp zero'' (Some 0)) = Some (Digits [])"
    by (simp add: example_story_def)
  have e: "story_timestamp ?e = None \<or> story_timestamp ?e = Some (Number 0)
           \<or> story_timestamp ?e = Some (Digits [])"
    by simp
  from story_without_timestamp_is_never_too_old[OF cut a le]
    story_without_timestamp_is_never_too_old[OF cut b le]
    story_without_timestamp_is_never_too_old[OF cut e le] cut
  show ?thesis by blast
qed

text \<open>
  C10 as stated fails: a story whose \<open>story_timestamp\<close> is the string \<open>0\<close>,
  which is 0 seconds since the epoch, is truthy for the code; its timestamp is
  the epoch and not the clock, and with \<open>max_days_old = 7\<close> the age rule
  purges it.
\<close>

theorem story_with_timestamp_string_zero_is_purged:
  "timestamp 1700000000000123
       ((example_story ''z'' ''Zero'' None)\<lparr>story_timestamp := Some (Digits [D0])\<rparr>)
     = Inr 0
   \<and> earlier_than_cutoff (no_filters\<lparr>max_days_old := Some 7\<rparr>) (Some 1699395200000000)
        1700000000000123
        ((example_story ''z'' ''Zero'' None)\<lparr>story_timestamp := Some (Digits [D0])\<rparr>)
       = Inr True
   \<and> loop_body (no_filters\<lparr>max_days_old := Some 7\<rparr>) failing_detector
        (Some 1699395200000000) 1700000000000123 0
        ((example_story ''z'' ''Zero'' None)\<lparr>story_timestamp := Some (Digits [D0])\<rparr>)
        initial_vars
       = Inr (purge
           ((example_story ''z'' ''Zero'' None)\<lparr>story_timestamp := Some (Digits [D0])\<rparr>)
           initial_vars)"
proof -
  let ?c = "no_filters\<lparr>max_days_old := Some 7\<rparr>"
  let ?z = "(example_story ''z'' ''Zero'' None)\<lparr>story_timestamp := Some (Digits [D0])\<rparr>"
  have t: "timestamp 1700000000000123 ?z = Inr 0"
    by (simp add: timestamp_def fromtimestamp_def datetime_min_def datetime_max_def)
  have e: "earlier_than_cutoff ?c (Some 1699395200000000) 1700000000000123 ?z = Inr True"
    by (simp add: earlier_than_cutoff_def t)
  have off: "\<not> deduplicate ?c" "max_stories_per_feed ?c = None" "language ?c = None"
    by (simp_all add: no_filters_def)
  from only_age_body[OF off e, of failing_detector 0 initial_vars] t e
  show ?thesis by simp
qed

section \<open>The claims about the run\<close>

text \<open>
  C3, as the code has it. The pagination loop polls the pages in order while
  the stories loaded so far are fewer than the feed's reported unread count.
  It has no test for an empty page. It returns exactly when, after some
  number of polls, a poll has raised or the count is met; the stories it
  returns are at least as many as the count. Hence it returns when every
  page it can poll holds an unread story or raises, and it never returns
  when the count is not met and every page from the current one on is empty.
\<close>

theorem fetch_loop_returns_iff_count_met_or_fetch_fails:
  "((\<exists>r. fetch_loop get count page fs = Some r)
      \<longleftrightarrow> (\<exists>k. count_met_or_failed count fs (pages_upto get page k)))
   \<and> (fetch_loop get count page fs = Some (Inr stories) \<longrightarrow>
        count \<le> int (length stories) \<and> prefix fs stories)
   \<and> ((\<forall>p\<ge>page. GetStories get p \<noteq> Inr []) \<longrightarrow> (\<exists>r. fetch_loop get count page fs = Some r))
   \<and> ((\<forall>p\<ge>page. GetStories get p = Inr []) \<and> int (length fs) < count \<longrightarrow>
        fetch_loop get count page fs = None)"
proof -
  have a: "(\<exists>r. fetch_loop get count page fs = Some r)
      \<longleftrightarrow> (\<exists>k. count_met_or_failed count fs (pages_upto get page k))"
    using fetch_loop_returns_if fetch_loop_returns_only_if by blast
  have b: "fetch_loop get count page fs = Some (Inr stories) \<longrightarrow>
        count \<le> int (length stories) \<and> prefix fs stories"
    using fetch_loop_result by blast
  have c: "(\<forall>p\<ge>page. GetStories get p \<noteq> Inr []) \<longrightarrow> (\<exists>r. fetch_loop get count page fs = Some r)"
    using fetch_loop_returns_when_never_empty[of page get count fs] by blast
  have d: "(\<forall>p\<ge>page. GetStories get p = Inr []) \<and> int (length fs) < count \<longrightarrow>
        fetch_loop get count page fs = None"
    using fetch_loop_never_returns[of page get fs count] by blast
  from a b c d show ?thesis by blast
qed

text \<open>
  The loop on a feed whose three unread stories the server delivers on two
  pages, with a reported unread count of 3.
\<close>

theorem fetch_loop_returns_iff_count_met_or_fetch_fails_witness:
  "count_met_or_failed 3 [] (pages_upto example_source 1 2)
   \<and> fetch_loop example_source 3 1 []
       = Some (Inr [example_story ''a'' ''A'' None, example_story ''b'' ''B'' None,
                    example_story ''c'' ''C'' None])
   \<and> (3::int) \<le> int (length [example_story ''a'' ''A'' None, example_story ''b'' ''B'' None,
                    example_story ''c'' ''C'' None])"
proof -
  have p: "pages_upto example_source 1 (Suc (Suc 0))
             = Inr [example_story ''a'' ''A'' None, example_story ''b'' ''B'' None,
                    example_story ''c'' ''C'' None]"
    using example_source_1 example_source_2 by simp
  then have m: "count_met_or_failed 3 [] (pages_upto example_source 1 2)"
    by (simp add: count_met_or_failed_def numeral_2_eq_2)
  have "fetch_loop example_source 3 1 []
          = fetch_loop example_source 3 (1 + 1)
              ([] @ [example_story ''a'' ''A'' None, example_story ''b'' ''B'' None])"
    by (rule fetch_loop_next[OF _ example_source_1]) simp
  also have "\<dots> = fetch_loop example_source 3 (1 + 1 + 1)
              (([] @ [example_story ''a'' ''A'' None, example_story ''b'' ''B'' None])
                 @ [example_story ''c'' ''C'' None])"
    by (rule fetch_loop_next[OF _ example_source_2]) simp
  also have "\<dots> = Some (Inr [example_story ''a'' ''A'' None, example_story ''b'' ''B'' None,
                    example_story ''c'' ''C'' None])"
    by (simp add: fetch_loop_done)
  finally have e: "fetch_loop example_source 3 1 []
       = Some (Inr [example_story ''a'' ''A'' None, example_story ''b'' ''B'' None,
                    example_story ''c'' ''C'' None])" .
  from fetch_loop_returns_iff_count_met_or_fetch_fails[of example_source 3 1 "[]"
      "[example_story ''a'' ''A'' None, example_story ''b'' ''B'' None,
        example_story ''c'' ''C'' None]"] e
  have "(3::int) \<le> int (length [example_story ''a'' ''A'' None, example_story ''b'' ''B'' None,
                    example_story ''c'' ''C'' None])"
    by blast
  with m e show ?thesis by blast
qed

text \<open>
  C3 as stated fails: on the same feed with a reported unread count of 4, one
  more than the stories the server has, the loop polls empty pages for ever.
\<close>

theorem fetch_loop_wrong_count_never_returns: "fetch_loop example_source 4 1 [] = None"
proof -
  have "fetch_loop example_source 4 1 []
          = fetch_loop example_source 4 (1 + 1)
              ([] @ [example_story ''a'' ''A'' None, example_story ''b'' ''B'' None])"
    by (rule fetch_loop_next[OF _ example_source_1]) simp
  also have "\<dots> = fetch_loop example_source 4 (1 + 1 + 1)
              (([] @ [example_story ''a'' ''A'' None, example_story ''b'' ''B'' None])
                 @ [example_story ''c'' ''C'' None])"
    by (rule fetch_loop_next[OF _ example_source_2]) simp
  also have "\<dots> = None"
    by (rule fetch_loop_never_returns) (simp_all add: example_source_exhausted)
  finally show ?thesis .
qed

text \<open>
  C5. A run that reaches the end has posted no mark-as-read request if no
  story was purged, and otherwise exactly one, after the loop over the feeds.
  Its argument is the list of hashes of the purged stories: the
  concatenation, feed after feed in processing order, of the
  \<open>feed_stories_to_mark\<close> of every feed with unread stories. This list is a
  subsequence of the stories loaded, so that no story is listed more often
  than it was loaded.
\<close>

theorem one_bulk_mark_as_read_call:
  assumes "main c login GetFeeds pages detect now clock = Some (Inr calls)"
  shows "\<exists>all_feeds cutoff results purged.
           GetFeeds = Inr all_feeds \<and> compute_cutoff c now = Inr cutoff
           \<and> results = feed_results c pages detect cutoff clock 0
                         (filter (\<lambda>f. unread_count f > 0) all_feeds) initial_vars
           \<and> length results = length (filter (\<lambda>f. unread_count f > 0) all_feeds)
           \<and> purged = concat (map feed_stories_to_mark results)
           \<and> subseq purged (concat (map (fetched pages) (filter (\<lambda>f. unread_count f > 0) all_feeds)))
           \<and> calls = (if purged = [] then [] else [map hash purged])"
proof -
  from assms obtain all_feeds cutoff v where
    g: "GetFeeds = Inr all_feeds" and k: "compute_cutoff c now = Inr cutoff"
    and l: "feeds_loop c pages detect cutoff clock 0
              (filter (\<lambda>f. unread_count f > 0) all_feeds) initial_vars = Some (Inr v)"
    and r: "calls = (if all_stories_to_mark v \<noteq> []
                     then [MarkStoriesAsRead (all_stories_to_mark v)] else [])"
    by (auto simp: main_def split: sum.splits option.splits)
  let ?results = "feed_results c pages detect cutoff clock 0
                         (filter (\<lambda>f. unread_count f > 0) all_feeds) initial_vars"
  from feeds_loop_result[OF l] have
    "length ?results = length (filter (\<lambda>f. unread_count f > 0) all_feeds)"
    "all_stories_to_mark v = concat (map feed_stories_to_mark ?results)"
    "subseq (concat (map feed_stories_to_mark ?results))
       (concat (map (fetched pages) (filter (\<lambda>f. unread_count f > 0) all_feeds)))"
    by (simp_all add: initial_vars_def)
  with g k r show ?thesis by (simp add: MarkStoriesAsRead_def)
qed

text \<open>
  A run over three feeds, one of them without unread stories, with a cap of
  one story per feed: one request, with the two stories beyond the cap. The
  same run without filters: no request.
\<close>

theorem one_bulk_mark_as_read_call_witness:
  "main (no_filters\<lparr>max_stories_per_feed := Some 1\<rparr>) (Inr ())
         (Inr [example_feed ''f0'' 0, example_feed ''f1'' 3, example_feed ''f2'' 1])
         example_pages (always (always failing_detector)) 0 (always (always 0))
    = Some (Inr [[Some ''b'', Some ''c'']])
   \<and> main no_filters (Inr ())
         (Inr [example_feed ''f0'' 0, example_feed ''f1'' 3, example_feed ''f2'' 1])
         example_pages (always (always failing_detector)) 0 (always (always 0))
    = Some (Inr [])
   \<and> length [[Some ''b'', Some ''c'']] = Suc 0"
  using one_bulk_mark_as_read_call[OF example_run_with_cap] example_run_with_cap
    example_run_without_filters
  by simp

end
